theory Spec2Isabelle
  imports Main "HOL-Library.Word"
begin

section \<open>Python values used by main.py\<close>

text \<open>
  A Python \<open>str\<close> is a sequence of Unicode code points and a \<open>bytes\<close> object a
  sequence of octets. The two are kept apart by type: hashes travel as \<open>bytes\<close> inside
  the hashing functions and as \<open>str\<close> through the database column.
\<close>

type_synonym str = "nat list"
type_synonym bytes = "char list"

datatype exn =
    ValueError
  | TypeError
  | UnicodeEncodeError
  | UnicodeDecodeError
  | IntegrityError
  | DataError
  | ProgrammingError

definition lit :: "string \<Rightarrow> str" where
  \<comment> \<open>an ASCII literal of the source as a \<open>str\<close>\<close>
  "lit s = map of_char s"

subsection \<open>\<open>str.strip()\<close>\<close>

definition isspace :: "nat \<Rightarrow> bool" where
  \<comment> \<open>the code points \<open>str.strip()\<close> removes when called without argument\<close>
  "isspace c \<longleftrightarrow>
     (9 \<le> c \<and> c \<le> 13) \<or> (28 \<le> c \<and> c \<le> 32) \<or> c = 133 \<or> c = 160 \<or> c = 5760 \<or>
     (8192 \<le> c \<and> c \<le> 8202) \<or> c = 8232 \<or> c = 8233 \<or> c = 8239 \<or> c = 8287 \<or> c = 12288"

definition strip :: "str \<Rightarrow> str" where
  "strip s = rev (dropWhile isspace (rev (dropWhile isspace s)))"

subsection \<open>\<open>str.encode()\<close> and \<open>bytes.decode()\<close> (UTF-8, strict)\<close>

definition utf8_char :: "nat \<Rightarrow> bytes option" where
  \<comment> \<open>the octets of one code point; \<open>None\<close> for a surrogate, which \<open>encode\<close> refuses\<close>
  "utf8_char c =
     (if c < 0x80 then Some [char_of c]
      else if c < 0x800 then Some [char_of (0xC0 + c div 64), char_of (0x80 + c mod 64)]
      else if c < 0x10000 then
        (if 0xD800 \<le> c \<and> c < 0xE000 then None
         else Some [char_of (0xE0 + c div 4096), char_of (0x80 + c div 64 mod 64),
                    char_of (0x80 + c mod 64)])
      else if c < 0x110000 then
        Some [char_of (0xF0 + c div 262144), char_of (0x80 + c div 4096 mod 64),
              char_of (0x80 + c div 64 mod 64), char_of (0x80 + c mod 64)]
      else None)"

fun encode :: "str \<Rightarrow> exn + bytes" where
  "encode [] = Inr []"
| "encode (c # cs) =
     (case utf8_char c of
        None \<Rightarrow> Inl UnicodeEncodeError
      | Some bs \<Rightarrow> (case encode cs of Inl e \<Rightarrow> Inl e | Inr rest \<Rightarrow> Inr (bs @ rest)))"

definition trail :: "char \<Rightarrow> nat option" where
  \<comment> \<open>the six payload bits of a continuation octet \<open>10xxxxxx\<close>\<close>
  "trail b = (let n = of_char b in if 0x80 \<le> n \<and> n < 0xC0 then Some (n - 0x80) else None)"

fun utf8_head :: "bytes \<Rightarrow> (nat \<times> nat) option" where
  \<comment> \<open>the first code point of an octet string and the number of octets it takes;
      overlong forms, surrogates and values above U+10FFFF are rejected\<close>
  "utf8_head [] = None"
| "utf8_head (b # bs) =
     (let n = of_char b in
      if n < 0x80 then Some (n, 1)
      else if n < 0xC0 then None
      else if n < 0xE0 then
        (case bs of
           b1 # _ \<Rightarrow>
             (case trail b1 of
                Some t1 \<Rightarrow>
                  (let c = (n - 0xC0) * 64 + t1 in if 0x80 \<le> c then Some (c, 2) else None)
              | None \<Rightarrow> None)
         | _ \<Rightarrow> None)
      else if n < 0xF0 then
        (case bs of
           b1 # b2 # _ \<Rightarrow>
             (case (trail b1, trail b2) of
                (Some t1, Some t2) \<Rightarrow>
                  (let c = (n - 0xE0) * 4096 + t1 * 64 + t2 in
                   if 0x800 \<le> c \<and> \<not> (0xD800 \<le> c \<and> c < 0xE000) then Some (c, 3) else None)
              | _ \<Rightarrow> None)
         | _ \<Rightarrow> None)
      else if n < 0xF8 then
        (case bs of
           b1 # b2 # b3 # _ \<Rightarrow>
             (case (trail b1, trail b2, trail b3) of
                (Some t1, Some t2, Some t3) \<Rightarrow>
                  (let c = (n - 0xF0) * 262144 + t1 * 4096 + t2 * 64 + t3 in
                   if 0x10000 \<le> c \<and> c < 0x110000 then Some (c, 4) else None)
              | _ \<Rightarrow> None)
         | _ \<Rightarrow> None)
      else None)"

function decode :: "bytes \<Rightarrow> exn + str" where
  "decode [] = Inr []"
| "decode (b # bs) =
     (case utf8_head (b # bs) of
        None \<Rightarrow> Inl UnicodeDecodeError
      | Some (c, k) \<Rightarrow>
          (case decode (drop k (b # bs)) of Inl e \<Rightarrow> Inl e | Inr cs \<Rightarrow> Inr (c # cs)))"
  by pat_completeness auto
termination
proof (relation "measure length")
  show "wf (measure length)" by simp
next
  fix b bs x c k
  assume "utf8_head (b # bs) = Some x" and "(c, k) = x"
  then have "0 < k"
    by (auto simp: Let_def split: if_splits list.splits option.splits)
  then show "(drop k (b # bs), b # bs) \<in> measure length" by simp
qed

section \<open>The hashing libraries\<close>

text \<open>
  main.py hashes with the \<open>bcrypt\<close> package or, when that import fails, with
  \<open>passlib.hash.bcrypt\<close>; the module-level flag \<open>use_passlib\<close> records which. Both are
  third-party code, so the five library calls the program makes are parameters of the
  model, and every property the proofs need of them is a stated hypothesis. A library call
  may raise, hence the sum types. The randomness a call consumes (sixteen octets of the
  system source, \<open>entropy\<close>) is an explicit argument, which makes each call a function.
\<close>

type_synonym entropy = "128 word"

record backend =
  bcrypt_gensalt :: "entropy \<Rightarrow> bytes"
  bcrypt_hashpw :: "bytes \<Rightarrow> bytes \<Rightarrow> exn + bytes"
  bcrypt_checkpw :: "bytes \<Rightarrow> bytes \<Rightarrow> exn + bool"
  passlib_bcrypt_hash :: "str \<Rightarrow> entropy \<Rightarrow> exn + str"
  passlib_bcrypt_verify :: "str \<Rightarrow> str \<Rightarrow> exn + bool"

definition hash_password :: "bool \<Rightarrow> backend \<Rightarrow> str \<Rightarrow> entropy \<Rightarrow> exn + bytes" where
  "hash_password use_passlib lib raw rnd =
     (if use_passlib then
        (case passlib_bcrypt_hash lib raw rnd of Inl e \<Rightarrow> Inl e | Inr s \<Rightarrow> encode s)
      else
        (case encode raw of
           Inl e \<Rightarrow> Inl e
         | Inr pw \<Rightarrow> bcrypt_hashpw lib pw (bcrypt_gensalt lib rnd)))"

definition verify_password :: "bool \<Rightarrow> backend \<Rightarrow> str \<Rightarrow> bytes \<Rightarrow> exn + bool" where
  \<comment> \<open>only the passlib branch sits in \<open>try ... except Exception: return False\<close>\<close>
  "verify_password use_passlib lib raw stored_hash =
     (if use_passlib then
        (case decode stored_hash of
           Inl e \<Rightarrow> Inr False
         | Inr s \<Rightarrow>
             (case passlib_bcrypt_verify lib raw s of Inl e \<Rightarrow> Inr False | Inr ok \<Rightarrow> Inr ok))
      else
        (case encode raw of
           Inl e \<Rightarrow> Inl e
         | Inr pw \<Rightarrow> bcrypt_checkpw lib pw stored_hash))"

section \<open>The users table\<close>

text \<open>
  The MySQL server is seen through the statements main.py sends. Its state is the
  \<open>users\<close> table as the connection sees it (\<open>None\<close> until it is created), the table
  as last committed, and the statements sent so far. \<open>username VARCHAR(255) PRIMARY KEY\<close>
  and \<open>password_hash VARCHAR(255) NOT NULL\<close> are modelled as follows: an INSERT of a
  value longer than 255 characters is refused (strict SQL mode, error 1406, which the
  connector raises as \<open>DataError\<close>); an INSERT repeating a key is refused with
  \<open>IntegrityError\<close> and inserts nothing. Usernames are compared exactly, that is,
  the column is taken to have a case-sensitive collation, as the specification's data
  model says; the source leaves the collation to the server's default.
\<close>

datatype stmt = CreateUsers | InsertUser str str | SelectHash str | Commit

record mysql =
  users :: "(str \<times> str) list option"
  durable :: "(str \<times> str) list option"
  sent :: "stmt list"

definition setup_table :: "mysql \<Rightarrow> mysql" where
  \<comment> \<open>\<open>CREATE TABLE IF NOT EXISTS users (...)\<close>; data definition commits implicitly\<close>
  "setup_table db =
     (let t = (case users db of None \<Rightarrow> [] | Some rows \<Rightarrow> rows)
      in db\<lparr>users := Some t, durable := Some t, sent := sent db @ [CreateUsers]\<rparr>)"

definition execute_insert :: "str \<Rightarrow> str \<Rightarrow> mysql \<Rightarrow> exn option \<times> mysql" where
  \<comment> \<open>\<open>INSERT INTO users (username, password_hash) VALUES (%s, %s)\<close>\<close>
  "execute_insert u h db =
     (let db' = db\<lparr>sent := sent db @ [InsertUser u h]\<rparr> in
      case users db of
        None \<Rightarrow> (Some ProgrammingError, db')
      | Some rows \<Rightarrow>
          if 255 < length u \<or> 255 < length h then (Some DataError, db')
          else if u \<in> set (map fst rows) then (Some IntegrityError, db')
          else (None, db'\<lparr>users := Some (rows @ [(u, h)])\<rparr>))"

definition commit :: "mysql \<Rightarrow> mysql" where
  "commit db = db\<lparr>durable := users db, sent := sent db @ [Commit]\<rparr>"

definition execute_select :: "str \<Rightarrow> mysql \<Rightarrow> (exn + str list) \<times> mysql" where
  \<comment> \<open>\<open>SELECT password_hash FROM users WHERE username = %s\<close>\<close>
  "execute_select u db =
     (let db' = db\<lparr>sent := sent db @ [SelectHash u]\<rparr> in
      case users db of
        None \<Rightarrow> (Inl ProgrammingError, db')
      | Some rows \<Rightarrow> (Inr (map snd (filter (\<lambda>r. fst r = u) rows)), db'))"

definition fetchone :: "'a list \<Rightarrow> 'a option" where
  "fetchone rs = (case rs of [] \<Rightarrow> None | r # _ \<Rightarrow> Some r)"

section \<open>register and login\<close>

definition cross :: nat where "cross = 0x274C"
definition tick :: nat where "tick = 0x2705"

definition username_empty :: str where
  "username_empty = cross # lit '' Username cannot be empty.''"
definition password_empty :: str where
  "password_empty = cross # lit '' Password cannot be empty.''"
definition registration_successful :: str where
  "registration_successful = tick # lit '' Registration successful.''"
definition username_exists :: str where
  "username_exists = cross # lit '' Username already exists.''"
definition user_not_found :: str where
  "user_not_found = cross # lit '' User not found.''"
definition login_successful :: "str \<Rightarrow> str" where
  "login_successful username =
     tick # lit '' Login successful! Welcome, '' @ username @ lit ''.''"
definition invalid_credentials :: str where
  "invalid_credentials = cross # lit '' Invalid credentials.''"

text \<open>
  A call either returns or lets an exception escape to its caller; in both cases it has
  printed some lines and left the server in some state. The arguments \<open>username_in\<close>
  and \<open>password_in\<close> are what \<open>input\<close> and \<open>getpass.getpass\<close> deliver.
\<close>

datatype status = Returned | Raised exn

record outcome =
  status :: status
  printed :: "str list"
  store :: mysql

definition except_IntegrityError :: "exn \<Rightarrow> mysql \<Rightarrow> outcome" where
  \<comment> \<open>the handler of the \<open>try\<close> block in register: any other exception escapes\<close>
  "except_IntegrityError e db =
     (if e = IntegrityError then \<lparr>status = Returned, printed = [username_exists], store = db\<rparr>
      else \<lparr>status = Raised e, printed = [], store = db\<rparr>)"

definition register :: "bool \<Rightarrow> backend \<Rightarrow> str \<Rightarrow> str \<Rightarrow> entropy \<Rightarrow> mysql \<Rightarrow> outcome" where
  "register use_passlib lib username_in password_in rnd db =
     (let username = strip username_in in
      if username = [] then \<lparr>status = Returned, printed = [username_empty], store = db\<rparr>
      else
        let password = strip password_in in
        if password = [] then \<lparr>status = Returned, printed = [password_empty], store = db\<rparr>
        else
          case hash_password use_passlib lib password rnd of
            Inl e \<Rightarrow> \<lparr>status = Raised e, printed = [], store = db\<rparr>
          | Inr hashed \<Rightarrow>
              (case decode hashed of
                 Inl e \<Rightarrow> except_IntegrityError e db
               | Inr h \<Rightarrow>
                   (case execute_insert username h db of
                      (Some e, db1) \<Rightarrow> except_IntegrityError e db1
                    | (None, db1) \<Rightarrow>
                        \<lparr>status = Returned, printed = [registration_successful],
                         store = commit db1\<rparr>)))"

definition login :: "bool \<Rightarrow> backend \<Rightarrow> str \<Rightarrow> str \<Rightarrow> mysql \<Rightarrow> outcome" where
  "login use_passlib lib username_in password_in db =
     (let username = strip username_in in
      if username = [] then \<lparr>status = Returned, printed = [username_empty], store = db\<rparr>
      else
        let password = strip password_in in
        case execute_select username db of
          (Inl e, db1) \<Rightarrow> \<lparr>status = Raised e, printed = [], store = db1\<rparr>
        | (Inr rs, db1) \<Rightarrow>
            (case fetchone rs of
               None \<Rightarrow> \<lparr>status = Returned, printed = [user_not_found], store = db1\<rparr>
             | Some h \<Rightarrow>
                 (case encode h of
                    Inl e \<Rightarrow> \<lparr>status = Raised e, printed = [], store = db1\<rparr>
                  | Inr stored_hash \<Rightarrow>
                      (case verify_password use_passlib lib password stored_hash of
                         Inl e \<Rightarrow> \<lparr>status = Raised e, printed = [], store = db1\<rparr>
                       | Inr True \<Rightarrow>
                           \<lparr>status = Returned, printed = [login_successful username],
                            store = db1\<rparr>
                       | Inr False \<Rightarrow>
                           \<lparr>status = Returned, printed = [invalid_credentials],
                            store = db1\<rparr>))))"

section \<open>connect\<close>

text \<open>
  \<open>mysql.connector.connect\<close> returns a connection or raises; a
  \<open>mysql.connector.Error\<close> carries \<open>errno\<close> and prints as its text. What the server
  answers to the n-th connection attempt of the process is \<open>net n\<close>; \<open>connect\<close> is
  given the number of attempts made so far and returns the new count. The builtin
  \<open>exit(1)\<close> ends the process with status 1.
\<close>

datatype attempt = Connected mysql | Failed int str | Crashed exn

datatype finish = Return mysql | Exit int | Raise exn

definition ER_BAD_DB_ERROR :: int where "ER_BAD_DB_ERROR = 1049"
definition ER_ACCESS_DENIED_ERROR :: int where "ER_ACCESS_DENIED_ERROR = 1045"

definition database_missing :: "str \<Rightarrow> str" where
  "database_missing DB_NAME =
     lit ''Database '' @ [39] @ DB_NAME @ [39] @
     lit '' does not exist. Please create it and rerun. (e.g. CREATE DATABASE '' @
     DB_NAME @ lit '';)''"
definition access_denied :: str where
  "access_denied = lit ''Access denied: check your username/password.''"
definition connection_error :: "str \<Rightarrow> str" where
  "connection_error err = lit ''Database connection error: '' @ err"

definition connect :: "str \<Rightarrow> (nat \<Rightarrow> attempt) \<Rightarrow> nat \<Rightarrow> finish \<times> str list \<times> nat" where
  "connect DB_NAME net tries =
     (case net tries of
        Connected conn \<Rightarrow> (Return conn, [], Suc tries)
      | Failed errno err \<Rightarrow>
          (Exit 1,
           [if errno = ER_BAD_DB_ERROR then database_missing DB_NAME
            else if errno = ER_ACCESS_DENIED_ERROR then access_denied
            else connection_error err],
           Suc tries)
      | Crashed e \<Rightarrow> (Raise e, [], Suc tries))"

section \<open>A stand-in backend\<close>

text \<open>
  The hypotheses on the libraries have to be satisfiable, and the program has to be run
  on concrete inputs. For both a small backend is defined here. It has the layout of a
  bcrypt digest (\<open>$2b$12$\<close>, 22 salt characters, 31 hash characters), and, as
  \<open>bcrypt.checkpw\<close> and passlib's \<open>verify\<close> do, it raises \<open>ValueError\<close> on a
  string that does not parse as one. The key derivation itself is replaced by a simple
  mixing function; no general theorem below depends on it.
\<close>

definition alphabet :: bytes where
  "alphabet = ''./ABCDEFGHIJKLMNOPQRSTUVWXYZabcdefghijklmnopqrstuvwxyz0123456789''"

fun radix64 :: "nat \<Rightarrow> nat \<Rightarrow> bytes" where
  "radix64 0 n = []"
| "radix64 (Suc k) n = alphabet ! (n mod 64) # radix64 k (n div 64)"

definition stir :: "bytes \<Rightarrow> nat" where
  "stir bs = foldl (\<lambda>a c. (a * 257 + of_char c + 1) mod 2 ^ 184) 0 bs"

definition valid_salt :: "bytes \<Rightarrow> bool" where
  "valid_salt salt \<longleftrightarrow>
     29 \<le> length salt \<and> take 7 salt = ''$2b$12$'' \<and>
     list_all (\<lambda>c. c \<in> set alphabet) (take 22 (drop 7 salt))"

definition stand_in_gensalt :: "entropy \<Rightarrow> bytes" where
  "stand_in_gensalt rnd = ''$2b$12$'' @ radix64 22 (unat rnd)"

definition stand_in_hashpw :: "bytes \<Rightarrow> bytes \<Rightarrow> exn + bytes" where
  "stand_in_hashpw pw salt =
     (if valid_salt salt then Inr (take 29 salt @ radix64 31 (stir (take 29 salt @ pw)))
      else Inl ValueError)"

definition stand_in_checkpw :: "bytes \<Rightarrow> bytes \<Rightarrow> exn + bool" where
  "stand_in_checkpw pw hashed =
     (case stand_in_hashpw pw hashed of Inl e \<Rightarrow> Inl e | Inr h \<Rightarrow> Inr (h = hashed))"

definition stand_in_hash :: "str \<Rightarrow> entropy \<Rightarrow> exn + str" where
  "stand_in_hash raw rnd =
     (case encode raw of
        Inl e \<Rightarrow> Inl e
      | Inr pw \<Rightarrow>
          (case stand_in_hashpw pw (stand_in_gensalt rnd) of
             Inl e \<Rightarrow> Inl e
           | Inr h \<Rightarrow> decode h))"

definition stand_in_verify :: "str \<Rightarrow> str \<Rightarrow> exn + bool" where
  "stand_in_verify raw s =
     (case encode raw of
        Inl e \<Rightarrow> Inl e
      | Inr pw \<Rightarrow> (case encode s of Inl e \<Rightarrow> Inl e | Inr h \<Rightarrow> stand_in_checkpw pw h))"

definition stand_in :: backend where
  "stand_in =
     \<lparr>bcrypt_gensalt = stand_in_gensalt, bcrypt_hashpw = stand_in_hashpw,
      bcrypt_checkpw = stand_in_checkpw, passlib_bcrypt_hash = stand_in_hash,
      passlib_bcrypt_verify = stand_in_verify\<rparr>"







definition no_table :: mysql where
  \<comment> \<open>a database in which \<open>users\<close> has not been created yet\<close>
  "no_table = \<lparr>users = None, durable = None, sent = []\<rparr>"

section \<open>What is assumed of a hashing library\<close>

definition accepts_own :: "backend \<Rightarrow> bool" where
  \<comment> \<open>a digest the library returned for a password verifies against that password\<close>
  "accepts_own lib \<longleftrightarrow>
     (\<forall>pw salt h. bcrypt_hashpw lib pw salt = Inr h \<longrightarrow> bcrypt_checkpw lib pw h = Inr True) \<and>
     (\<forall>raw rnd s. passlib_bcrypt_hash lib raw rnd = Inr s \<longrightarrow>
        passlib_bcrypt_verify lib raw s = Inr True)"

definition salted :: "backend \<Rightarrow> bool" where
  \<comment> \<open>different randomness gives different salts, and a digest begins with the 29
      characters of its salt\<close>
  "salted lib \<longleftrightarrow>
     inj (bcrypt_gensalt lib) \<and>
     (\<forall>pw rnd h. bcrypt_hashpw lib pw (bcrypt_gensalt lib rnd) = Inr h \<longrightarrow>
        take 29 h = bcrypt_gensalt lib rnd) \<and>
     (\<forall>raw raw' rnd rnd' s s'. passlib_bcrypt_hash lib raw rnd = Inr s \<longrightarrow>
        passlib_bcrypt_hash lib raw' rnd' = Inr s' \<longrightarrow> take 29 s = take 29 s' \<longrightarrow> rnd = rnd')"


definition digests_nonempty :: "backend \<Rightarrow> bool" where
  "digests_nonempty lib \<longleftrightarrow>
     (\<forall>pw salt h. bcrypt_hashpw lib pw salt = Inr h \<longrightarrow> h \<noteq> []) \<and>
     (\<forall>raw rnd s. passlib_bcrypt_hash lib raw rnd = Inr s \<longrightarrow> s \<noteq> [])"

section \<open>The three classes of connection failure\<close>

text \<open>
  The specification names three classes of connection failure, each with a message of
  its own. \<open>connect\<close> above is written as the source is, with an if-chain on
  \<open>errno\<close>; the classification below follows the specification and is compared with
  it.
\<close>

datatype failure = DatabaseMissing | AccessDenied | OtherConnectionError

definition classify :: "int \<Rightarrow> failure" where
  "classify errno =
     (if errno = ER_BAD_DB_ERROR then DatabaseMissing
      else if errno = ER_ACCESS_DENIED_ERROR then AccessDenied
      else OtherConnectionError)"

fun diagnostic :: "str \<Rightarrow> str \<Rightarrow> failure \<Rightarrow> str" where
  "diagnostic DB_NAME err DatabaseMissing = database_missing DB_NAME"
| "diagnostic DB_NAME err AccessDenied = access_denied"
| "diagnostic DB_NAME err OtherConnectionError = connection_error err"

section \<open>The invariant of the users table\<close>

definition hashed_by :: "bool \<Rightarrow> backend \<Rightarrow> str \<Rightarrow> bool" where
  \<comment> \<open>the text is what \<open>hash_password\<close> returned for some plaintext, decoded\<close>
  "hashed_by use_passlib lib h \<longleftrightarrow>
     (\<exists>raw rnd hashed. hash_password use_passlib lib raw rnd = Inr hashed \<and>
        decode hashed = Inr h)"

definition table_ok :: "bool \<Rightarrow> backend \<Rightarrow> (str \<times> str) list option \<Rightarrow> bool" where
  "table_ok use_passlib lib t \<longleftrightarrow>
     (case t of
        None \<Rightarrow> True
      | Some rows \<Rightarrow>
          distinct (map fst rows) \<and>
          (\<forall>r \<in> set rows. snd r \<noteq> [] \<and> hashed_by use_passlib lib (snd r)))"

definition invariant :: "bool \<Rightarrow> backend \<Rightarrow> mysql \<Rightarrow> bool" where
  "invariant use_passlib lib db \<longleftrightarrow>
     table_ok use_passlib lib (users db) \<and> table_ok use_passlib lib (durable db)"

section \<open>Encoding and decoding are inverse to each other\<close>

lemma split3: "(c::nat) div 4096 * 4096 + c div 64 mod 64 * 64 + c mod 64 = c"
proof -
  define q where "q = c div 64"
  have d: "c div 4096 = q div 64" by (simp add: q_def div_mult2_eq)
  have c: "c = q * 64 + c mod 64" by (simp add: q_def)
  have q: "q = q div 64 * 64 + q mod 64" by simp
  have "q div 64 * 4096 + q mod 64 * 64 + c mod 64 = c" using c q by linarith
  then show ?thesis by (simp add: d q_def [symmetric])
qed

lemma split4: "(c::nat) div 262144 * 262144 + c div 4096 mod 64 * 4096 + c div 64 mod 64 * 64 + c mod 64 = c"
proof -
  define q where "q = c div 4096"
  have d: "c div 262144 = q div 64" by (simp add: q_def div_mult2_eq)
  have q: "q = q div 64 * 64 + q mod 64" by simp
  have "q div 64 * 262144 + q mod 64 * 4096 = q * 4096" using q by linarith
  then have "c div 262144 * 262144 + c div 4096 mod 64 * 4096 = c div 4096 * 4096"
    by (simp add: d q_def [symmetric])
  then show ?thesis using split3 [of c] by linarith
qed

lemma trail_char: "t < 64 \<Longrightarrow> trail (char_of (128 + t)) = Some t"
  by (simp add: trail_def Let_def)

lemma head1: "c < 128 \<Longrightarrow> utf8_head (char_of c # rest) = Some (c, 1)"
  by (simp add: Let_def)

lemma head2:
  assumes "128 \<le> c" "c < 2048"
  shows "utf8_head (char_of (192 + c div 64) # char_of (128 + c mod 64) # rest) = Some (c, 2)"
proof -
  have a: "c div 64 < 32" using assms by simp
  have b: "of_char (char_of (192 + c div 64)) = 192 + c div 64" using a by simp
  have t: "trail (char_of (128 + c mod 64)) = Some (c mod 64)" by (rule trail_char) simp
  show ?thesis using a assms by (simp add: b t Let_def)
qed

lemma head3:
  assumes "2048 \<le> c" "c < 65536" "\<not> (55296 \<le> c \<and> c < 57344)"
  shows "utf8_head (char_of (224 + c div 4096) # char_of (128 + c div 64 mod 64) #
           char_of (128 + c mod 64) # rest) = Some (c, 3)"
proof -
  have a: "c div 4096 < 16" using assms by simp
  have b: "of_char (char_of (224 + c div 4096)) = 224 + c div 4096" using a by simp
  have t1: "trail (char_of (128 + c div 64 mod 64)) = Some (c div 64 mod 64)"
    by (rule trail_char) simp
  have t2: "trail (char_of (128 + c mod 64)) = Some (c mod 64)" by (rule trail_char) simp
  show ?thesis using a assms by (simp add: b t1 t2 split3 Let_def)
qed

lemma head4:
  assumes "65536 \<le> c" "c < 1114112"
  shows "utf8_head (char_of (240 + c div 262144) # char_of (128 + c div 4096 mod 64) #
           char_of (128 + c div 64 mod 64) # char_of (128 + c mod 64) # rest) = Some (c, 4)"
proof -
  have a: "c div 262144 < 8" using assms by simp
  have b: "of_char (char_of (240 + c div 262144)) = 240 + c div 262144" using a by simp
  have t1: "trail (char_of (128 + c div 4096 mod 64)) = Some (c div 4096 mod 64)"
    by (rule trail_char) simp
  have t2: "trail (char_of (128 + c div 64 mod 64)) = Some (c div 64 mod 64)"
    by (rule trail_char) simp
  have t3: "trail (char_of (128 + c mod 64)) = Some (c mod 64)" by (rule trail_char) simp
  show ?thesis using a assms by (simp add: b t1 t2 t3 split4 Let_def)
qed

lemma utf8_head_char: "utf8_char c = Some bs \<Longrightarrow> utf8_head (bs @ rest) = Some (c, length bs)"
  unfolding utf8_char_def
  by (auto simp del: utf8_head.simps simp add: head1 head2 head3 head4 split: if_splits)

lemma utf8_char_nonempty: "utf8_char c = Some bs \<Longrightarrow> bs \<noteq> []"
  by (auto simp: utf8_char_def split: if_splits)

lemma decode_append_char:
  assumes "utf8_char c = Some bs"
  shows "decode (bs @ rest) = (case decode rest of Inl e \<Rightarrow> Inl e | Inr cs \<Rightarrow> Inr (c # cs))"
proof -
  from assms obtain b bs' where bs: "bs = b # bs'" using utf8_char_nonempty by (cases bs) auto
  have "utf8_head (b # bs' @ rest) = Some (c, length bs)"
    using utf8_head_char [OF assms, of rest] bs by simp
  then show ?thesis using bs by (simp del: utf8_head.simps)
qed

lemma decode_encode: "encode s = Inr b \<Longrightarrow> decode b = Inr s"
proof (induction s arbitrary: b)
  case Nil then show ?case by simp
next
  case (Cons c cs)
  then show ?case
    by (auto simp: decode_append_char split: option.splits sum.splits)
qed

lemma trail_back: "trail b = Some t \<Longrightarrow> t < 64 \<and> char_of (128 + t) = b"
proof -
  assume a: "trail b = Some t"
  define n :: nat where "n = of_char b"
  from a have r: "128 \<le> n" "n < 192" "t = n - 128"
    by (auto simp: trail_def Let_def n_def split: if_splits)
  then have "128 + t = n" by simp
  then have "char_of (128 + t) = b" by (simp add: n_def)
  with r show ?thesis by simp
qed

lemma digits2: "t < 64 \<Longrightarrow> ((a::nat) * 64 + t) div 64 = a \<and> (a * 64 + t) mod 64 = t"
  by simp

lemma digits3:
  assumes "t1 < 64" "t2 < 64"
  shows "((a::nat) * 4096 + t1 * 64 + t2) div 4096 = a \<and>
         (a * 4096 + t1 * 64 + t2) div 64 mod 64 = t1 \<and>
         (a * 4096 + t1 * 64 + t2) mod 64 = t2"
proof -
  have e: "a * 4096 + t1 * 64 + t2 = (a * 64 + t1) * 64 + t2" by simp
  have d: "(a * 4096 + t1 * 64 + t2) div 64 = a * 64 + t1" unfolding e using assms by simp
  have "(a * 4096 + t1 * 64 + t2) div 4096 = (a * 4096 + t1 * 64 + t2) div 64 div 64"
    by (simp add: div_mult2_eq)
  also have "\<dots> = a" unfolding d using assms by simp
  finally have 1: "(a * 4096 + t1 * 64 + t2) div 4096 = a" .
  have 2: "(a * 4096 + t1 * 64 + t2) div 64 mod 64 = t1" unfolding d using assms by simp
  have "((a * 64 + t1) * 64 + t2) mod 64 = t2"
    using digits2 [OF assms(2), of "a * 64 + t1"] by (rule conjunct2)
  then have 3: "(a * 4096 + t1 * 64 + t2) mod 64 = t2" by (simp only: e)
  from 1 2 3 show ?thesis by simp
qed

lemma digits4:
  assumes "t1 < 64" "t2 < 64" "t3 < 64"
  shows "((a::nat) * 262144 + t1 * 4096 + t2 * 64 + t3) div 262144 = a \<and>
         (a * 262144 + t1 * 4096 + t2 * 64 + t3) div 4096 mod 64 = t1 \<and>
         (a * 262144 + t1 * 4096 + t2 * 64 + t3) div 64 mod 64 = t2 \<and>
         (a * 262144 + t1 * 4096 + t2 * 64 + t3) mod 64 = t3"
proof -
  let ?c = "a * 262144 + t1 * 4096 + t2 * 64 + t3"
  have e: "?c = (a * 64 + t1) * 4096 + t2 * 64 + t3" by simp
  from digits3 [OF assms(2,3), of "a * 64 + t1"]
  have l: "?c div 4096 = a * 64 + t1" "?c div 64 mod 64 = t2" "?c mod 64 = t3"
    unfolding e by simp_all
  have "?c div 262144 = ?c div 4096 div 64" by (simp add: div_mult2_eq)
  also have "\<dots> = a" unfolding l using assms by simp
  finally have 1: "?c div 262144 = a" .
  have 2: "?c div 4096 mod 64 = t1" unfolding l using assms by simp
  from 1 2 l show ?thesis by simp
qed

lemma back1: "of_char b < (128::nat) \<Longrightarrow> utf8_char (of_char b) = Some [b]"
  by (simp add: utf8_char_def)

lemma back2:
  assumes n: "192 \<le> (of_char b :: nat)" "(of_char b :: nat) < 224"
    and t: "trail b1 = Some t1"
    and c: "c = (of_char b - 192) * 64 + t1" "128 \<le> c"
  shows "utf8_char c = Some [b, b1]"
proof -
  define a :: nat where "a = of_char b - 192"
  from trail_back [OF t] have t1: "t1 < 64" "char_of (128 + t1) = b1" by simp_all
  have a: "a < 32" "192 + a = of_char b" using n by (simp_all add: a_def)
  have c': "c = a * 64 + t1" using c by (simp add: a_def)
  from digits2 [OF t1(1), of a] have d: "c div 64 = a" "c mod 64 = t1" by (simp_all add: c')
  have "c < 2048" using a t1 by (simp add: c')
  moreover have "char_of (192 + a) = b" by (simp only: a) simp
  ultimately show ?thesis using c(2) t1 by (simp add: utf8_char_def d)
qed

lemma back3:
  assumes n: "224 \<le> (of_char b :: nat)" "(of_char b :: nat) < 240"
    and t: "trail b1 = Some t1" "trail b2 = Some t2"
    and c: "c = (of_char b - 224) * 4096 + t1 * 64 + t2" "2048 \<le> c"
           "\<not> (55296 \<le> c \<and> c < 57344)"
  shows "utf8_char c = Some [b, b1, b2]"
proof -
  define a :: nat where "a = of_char b - 224"
  from trail_back [OF t(1)] have t1: "t1 < 64" "char_of (128 + t1) = b1" by simp_all
  from trail_back [OF t(2)] have t2: "t2 < 64" "char_of (128 + t2) = b2" by simp_all
  have a: "a < 16" "224 + a = of_char b" using n by (simp_all add: a_def)
  have c': "c = a * 4096 + t1 * 64 + t2" using c by (simp add: a_def)
  from digits3 [OF t1(1) t2(1), of a]
  have d: "c div 4096 = a" "c div 64 mod 64 = t1" "c mod 64 = t2" by (simp_all add: c')
  have "c < 65536" using a t1 t2 by (simp add: c')
  moreover have "char_of (224 + a) = b" by (simp only: a) simp
  ultimately show ?thesis using c(2,3) t1 t2 by (simp add: utf8_char_def d)
qed

lemma back4:
  assumes n: "240 \<le> (of_char b :: nat)" "(of_char b :: nat) < 248"
    and t: "trail b1 = Some t1" "trail b2 = Some t2" "trail b3 = Some t3"
    and c: "c = (of_char b - 240) * 262144 + t1 * 4096 + t2 * 64 + t3" "65536 \<le> c"
           "c < 1114112"
  shows "utf8_char c = Some [b, b1, b2, b3]"
proof -
  define a :: nat where "a = of_char b - 240"
  from trail_back [OF t(1)] have t1: "t1 < 64" "char_of (128 + t1) = b1" by simp_all
  from trail_back [OF t(2)] have t2: "t2 < 64" "char_of (128 + t2) = b2" by simp_all
  from trail_back [OF t(3)] have t3: "t3 < 64" "char_of (128 + t3) = b3" by simp_all
  have a: "240 + a = of_char b" using n by (simp_all add: a_def)
  have c': "c = a * 262144 + t1 * 4096 + t2 * 64 + t3" using c by (simp add: a_def)
  from digits4 [OF t1(1) t2(1) t3(1), of a]
  have d: "c div 262144 = a" "c div 4096 mod 64 = t1" "c div 64 mod 64 = t2" "c mod 64 = t3"
    by (simp_all add: c')
  have "char_of (240 + a) = b" by (simp only: a) simp
  then show ?thesis using c(2,3) t1 t2 t3 by (simp add: utf8_char_def d)
qed

lemma utf8_char_head:
  assumes "utf8_head bs = Some (c, k)"
  shows "k \<le> length bs \<and> utf8_char c = Some (take k bs)"
proof (cases bs)
  case Nil
  with assms show ?thesis by simp
next
  case (Cons b r)
  define n :: nat where "n = of_char b"
  consider "n < 128" | "128 \<le> n" "n < 192" | "192 \<le> n" "n < 224" | "224 \<le> n" "n < 240"
    | "240 \<le> n" "n < 248" | "248 \<le> n" by linarith
  then show ?thesis
  proof cases
    case 1
    with assms Cons have "c = of_char b" "k = 1" by (auto simp: n_def Let_def)
    with 1 Cons show ?thesis by (simp add: back1 n_def)
  next
    case 2
    with assms Cons show ?thesis by (simp add: n_def Let_def)
  next
    case 3
    with assms Cons obtain b1 r' t1 where r: "r = b1 # r'" and t: "trail b1 = Some t1"
      and c: "c = (of_char b - 192) * 64 + t1" "128 \<le> c" and k: "k = 2"
      by (auto simp: n_def Let_def split: list.splits option.splits if_splits)
    from back2 [OF _ _ t c] 3 have "utf8_char c = Some [b, b1]" by (simp add: n_def)
    with Cons r k show ?thesis by simp
  next
    case 4
    with assms Cons obtain b1 b2 r' t1 t2 where r: "r = b1 # b2 # r'"
      and t: "trail b1 = Some t1" "trail b2 = Some t2"
      and c: "c = (of_char b - 224) * 4096 + t1 * 64 + t2" "2048 \<le> c"
             "\<not> (55296 \<le> c \<and> c < 57344)" and k: "k = 3"
      by (auto simp: n_def Let_def split: list.splits option.splits if_splits)
    from back3 [OF _ _ t c] 4 have "utf8_char c = Some [b, b1, b2]" by (simp add: n_def)
    with Cons r k show ?thesis by simp
  next
    case 5
    with assms Cons obtain b1 b2 b3 r' t1 t2 t3 where r: "r = b1 # b2 # b3 # r'"
      and t: "trail b1 = Some t1" "trail b2 = Some t2" "trail b3 = Some t3"
      and c: "c = (of_char b - 240) * 262144 + t1 * 4096 + t2 * 64 + t3" "65536 \<le> c"
             "c < 1114112" and k: "k = 4"
      by (auto simp: n_def Let_def split: list.splits option.splits if_splits)
    from back4 [OF _ _ t c] 5 have "utf8_char c = Some [b, b1, b2, b3]" by (simp add: n_def)
    with Cons r k show ?thesis by simp
  next
    case 6
    with assms Cons show ?thesis by (simp add: n_def Let_def)
  qed
qed

lemma encode_decode: "decode b = Inr s \<Longrightarrow> encode s = Inr b"
proof (induction b arbitrary: s rule: decode.induct)
  case 1 then show ?case by simp
next
  case (2 b bs)
  from "2.prems" obtain c k cs where h: "utf8_head (b # bs) = Some (c, k)"
    and d: "decode (drop k (b # bs)) = Inr cs" and s: "s = c # cs"
    by (auto split: option.splits sum.splits simp del: utf8_head.simps)
  from "2.IH" [OF h refl d] have e: "encode cs = Inr (drop k (b # bs))" .
  from utf8_char_head [OF h] have "utf8_char c = Some (take k (b # bs))" by simp
  with e s show ?case by (simp del: utf8_head.simps)
qed

section \<open>The stand-in backend meets the assumptions\<close>

lemma length_radix64: "length (radix64 k n) = k"
  by (induction k arbitrary: n) simp_all

lemma distinct_alphabet: "distinct alphabet \<and> length alphabet = 64"
  by (simp add: alphabet_def)

lemma alphabet_nth_inj: "i < 64 \<Longrightarrow> j < 64 \<Longrightarrow> alphabet ! i = alphabet ! j \<Longrightarrow> i = j"
  using distinct_alphabet by (simp add: nth_eq_iff_index_eq)

lemma radix64_inj: "n < 64 ^ k \<Longrightarrow> m < 64 ^ k \<Longrightarrow> radix64 k n = radix64 k m \<Longrightarrow> n = m"
proof (induction k arbitrary: n m)
  case 0
  then show ?case by simp
next
  case (Suc k)
  from Suc.prems(3) have hd: "alphabet ! (n mod 64) = alphabet ! (m mod 64)"
    and tl: "radix64 k (n div 64) = radix64 k (m div 64)" by simp_all
  from hd have r: "n mod 64 = m mod 64" by (rule alphabet_nth_inj [rotated 2]) simp_all
  have "n div 64 < 64 ^ k" "m div 64 < 64 ^ k"
    using Suc.prems(1,2) by (simp_all add: less_mult_imp_div_less mult.commute)
  with tl have q: "n div 64 = m div 64" by (rule Suc.IH [rotated 2])
  from r q show ?case by (metis div_mult_mod_eq)
qed

lemma stand_in_gensalt_inj: "stand_in_gensalt r = stand_in_gensalt r' \<Longrightarrow> r = r'"
proof -
  assume "stand_in_gensalt r = stand_in_gensalt r'"
  then have e: "radix64 22 (unat r) = radix64 22 (unat r')" by (simp add: stand_in_gensalt_def)
  have b: "unat r < 2 ^ 128" "unat r' < 2 ^ 128"
    using unsigned_less [of r, where 'a = nat] unsigned_less [of r', where 'a = nat] by simp_all
  have "(2::nat) ^ 128 \<le> 64 ^ 22" by simp
  with b have "unat r < 64 ^ 22" "unat r' < 64 ^ 22" by linarith+
  from radix64_inj [OF this e] show ?thesis by (simp add: word_unat_eq_iff)
qed

lemma length_stand_in_gensalt: "length (stand_in_gensalt r) = 29"
  by (simp add: stand_in_gensalt_def length_radix64)

lemma stand_in_hashpw_Inr:
  "stand_in_hashpw pw salt = Inr h \<longleftrightarrow>
     valid_salt salt \<and> h = take 29 salt @ radix64 31 (stir (take 29 salt @ pw))"
  by (auto simp: stand_in_hashpw_def)

lemma valid_salt_digest:
  assumes "valid_salt salt"
  shows "valid_salt (take 29 salt @ rest) \<and> take 29 (take 29 salt @ rest) = take 29 salt"
proof -
  define a where "a = take 29 salt"
  define b where "b = drop 29 salt"
  have s: "salt = a @ b" by (simp add: a_def b_def)
  have l: "length a = 29" using assms by (simp add: a_def valid_salt_def)
  have "take 7 (a @ b) = take 7 a" "take 7 (a @ rest) = take 7 a"
    "take 22 (drop 7 (a @ b)) = drop 7 a" "take 22 (drop 7 (a @ rest)) = drop 7 a"
    "take 29 (a @ rest) = a"
    using l by simp_all
  then show ?thesis using assms l unfolding a_def [symmetric] s valid_salt_def by simp
qed

lemma stand_in_hashpw_again:
  assumes "stand_in_hashpw pw salt = Inr h"
  shows "stand_in_hashpw pw h = Inr h"
proof -
  define r where "r = radix64 31 (stir (take 29 salt @ pw))"
  from assms have v: "valid_salt salt" and h: "h = take 29 salt @ r"
    by (simp_all add: stand_in_hashpw_Inr r_def)
  from valid_salt_digest [OF v, of r]
  have "valid_salt h" "take 29 h = take 29 salt" by (simp_all add: h)
  then have "stand_in_hashpw pw h = Inr (take 29 salt @ r)"
    by (simp add: stand_in_hashpw_def r_def)
  then show ?thesis by (simp add: h)
qed

lemma stand_in_checkpw_own: "stand_in_hashpw pw salt = Inr h \<Longrightarrow> stand_in_checkpw pw h = Inr True"
  by (simp add: stand_in_checkpw_def stand_in_hashpw_again)

lemma stand_in_accepts_own: "accepts_own stand_in"
proof -
  have "stand_in_verify raw s = Inr True" if "stand_in_hash raw rnd = Inr s" for raw rnd s
  proof -
    from that obtain pw h where e: "encode raw = Inr pw"
      and h: "stand_in_hashpw pw (stand_in_gensalt rnd) = Inr h" and d: "decode h = Inr s"
      by (auto simp: stand_in_hash_def split: sum.splits)
    from encode_decode [OF d] e stand_in_checkpw_own [OF h] show ?thesis
      by (simp add: stand_in_verify_def)
  qed
  then show ?thesis
    by (simp add: accepts_own_def stand_in_def stand_in_checkpw_own)
qed

lemma decode_ascii:
  "(of_char b :: nat) < 128 \<Longrightarrow>
     decode (b # bs) = (case decode bs of Inl e \<Rightarrow> Inl e | Inr cs \<Rightarrow> Inr (of_char b # cs))"
  by (simp add: Let_def)

lemma decode_ascii_prefix:
  assumes "\<forall>c \<in> set bs. (of_char c :: nat) < 128" and "decode (bs @ rest) = Inr s"
  shows "take (length bs) s = map of_char bs"
  using assms
proof (induction bs arbitrary: s)
  case Nil
  then show ?case by simp
next
  case (Cons b bs)
  from Cons.prems(1) have b: "(of_char b :: nat) < 128" by simp
  from Cons.prems(2) have "decode (b # (bs @ rest)) = Inr s" by simp
  then obtain cs where cs: "decode (bs @ rest) = Inr cs" and s: "s = of_char b # cs"
    unfolding decode_ascii [OF b] by (auto split: sum.splits)
  from Cons.IH [OF _ cs] Cons.prems(1) s show ?case by simp
qed

lemma radix64_alphabet: "set (radix64 k n) \<subseteq> set alphabet"
proof (induction k arbitrary: n)
  case 0
  then show ?case by simp
next
  case (Suc k)
  have "n mod 64 < length alphabet" using distinct_alphabet by simp
  then have "alphabet ! (n mod 64) \<in> set alphabet" by (rule nth_mem)
  with Suc show ?case by simp
qed

lemma alphabet_ascii: "\<forall>c \<in> set alphabet. (of_char c :: nat) < 128"
  by (simp add: alphabet_def)

lemma stand_in_gensalt_ascii: "\<forall>c \<in> set (stand_in_gensalt rnd). (of_char c :: nat) < 128"
  using radix64_alphabet [of 22 "unat rnd"] alphabet_ascii
  by (auto simp: stand_in_gensalt_def)

lemma stand_in_hashpw_prefix:
  "stand_in_hashpw pw (stand_in_gensalt rnd) = Inr h \<Longrightarrow> take 29 h = stand_in_gensalt rnd"
  by (simp add: stand_in_hashpw_Inr length_stand_in_gensalt)

lemma stand_in_hash_prefix:
  assumes "stand_in_hash raw rnd = Inr s"
  shows "take 29 s = map of_char (stand_in_gensalt rnd)"
proof -
  from assms obtain pw h where h: "stand_in_hashpw pw (stand_in_gensalt rnd) = Inr h"
    and d: "decode h = Inr s"
    by (auto simp: stand_in_hash_def split: sum.splits)
  from h have "h = stand_in_gensalt rnd @ radix64 31 (stir (stand_in_gensalt rnd @ pw))"
    by (simp add: stand_in_hashpw_Inr length_stand_in_gensalt)
  with d decode_ascii_prefix [OF stand_in_gensalt_ascii, of rnd _ s]
  show ?thesis by (simp add: length_stand_in_gensalt)
qed

lemma stand_in_salted: "salted stand_in"
proof -
  have i: "inj stand_in_gensalt" by (rule injI) (rule stand_in_gensalt_inj)
  have "rnd = rnd'"
    if "stand_in_hash raw rnd = Inr s" "stand_in_hash raw' rnd' = Inr s'" "take 29 s = take 29 s'"
    for raw raw' rnd rnd' s s'
  proof -
    from that stand_in_hash_prefix [OF that(1)] stand_in_hash_prefix [OF that(2)]
    have "map (of_char :: char \<Rightarrow> nat) (stand_in_gensalt rnd) = map of_char (stand_in_gensalt rnd')"
      by simp
    then have "stand_in_gensalt rnd = stand_in_gensalt rnd'"
      by (simp add: inj_map_eq_map [OF inj_of_char])
    then show ?thesis by (rule stand_in_gensalt_inj)
  qed
  with i stand_in_hashpw_prefix show ?thesis
    unfolding salted_def stand_in_def by (simp; blast)
qed






lemma decode_nonempty: "decode b = Inr s \<Longrightarrow> b \<noteq> [] \<Longrightarrow> s \<noteq> []"
  by (cases b) (auto split: option.splits sum.splits simp del: utf8_head.simps)

lemma encode_nonempty: "encode s = Inr b \<Longrightarrow> s \<noteq> [] \<Longrightarrow> b \<noteq> []"
  by (cases s) (auto split: option.splits sum.splits dest: utf8_char_nonempty)

lemma stand_in_digests_nonempty: "digests_nonempty stand_in"
proof -
  have a: "h \<noteq> []" if "stand_in_hashpw pw salt = Inr h" for pw salt h
    using that by (auto simp: stand_in_hashpw_Inr valid_salt_def)
  have "s \<noteq> []" if "stand_in_hash raw rnd = Inr s" for raw rnd s
    using that by (auto simp: stand_in_hash_def split: sum.splits dest: a decode_nonempty)
  with a show ?thesis by (simp add: digests_nonempty_def stand_in_def; blast)
qed

section \<open>Properties of hashing, register and login\<close>

lemma verify_own:
  assumes "accepts_own lib" and "hash_password up lib raw rnd = Inr hashed"
  shows "verify_password up lib raw hashed = Inr True"
proof (cases up)
  case True
  with assms(2) obtain s where s: "passlib_bcrypt_hash lib raw rnd = Inr s"
    and e: "encode s = Inr hashed"
    by (auto simp: hash_password_def split: sum.splits)
  from assms(1) s have "passlib_bcrypt_verify lib raw s = Inr True"
    by (simp add: accepts_own_def)
  with decode_encode [OF e] True show ?thesis by (simp add: verify_password_def)
next
  case False
  with assms(2) obtain pw where e: "encode raw = Inr pw"
    and h: "bcrypt_hashpw lib pw (bcrypt_gensalt lib rnd) = Inr hashed"
    by (auto simp: hash_password_def split: sum.splits)
  from assms(1) h have "bcrypt_checkpw lib pw hashed = Inr True"
    unfolding accepts_own_def by blast
  with e False show ?thesis by (simp add: verify_password_def)
qed

lemma hash_password_salted:
  assumes "salted lib" and "rnd \<noteq> rnd'"
    and "hash_password up lib raw rnd = Inr d" and "hash_password up lib raw rnd' = Inr d'"
  shows "d \<noteq> d'"
proof (cases up)
  case True
  with assms(3) obtain s where s: "passlib_bcrypt_hash lib raw rnd = Inr s"
    and e: "encode s = Inr d"
    by (auto simp: hash_password_def split: sum.splits)
  from True assms(4) obtain s' where s': "passlib_bcrypt_hash lib raw rnd' = Inr s'"
    and e': "encode s' = Inr d'"
    by (auto simp: hash_password_def split: sum.splits)
  from assms(1) s s' have "take 29 s = take 29 s' \<longrightarrow> rnd = rnd'"
    unfolding salted_def by blast
  with assms(2) have "s \<noteq> s'" by auto
  with decode_encode [OF e] decode_encode [OF e'] show ?thesis by auto
next
  case False
  with assms(3) obtain pw where e: "encode raw = Inr pw"
    and h: "bcrypt_hashpw lib pw (bcrypt_gensalt lib rnd) = Inr d"
    by (auto simp: hash_password_def split: sum.splits)
  from False assms(4) e have h': "bcrypt_hashpw lib pw (bcrypt_gensalt lib rnd') = Inr d'"
    by (auto simp: hash_password_def split: sum.splits)
  from assms(1) h h' have p: "take 29 d = bcrypt_gensalt lib rnd"
    "take 29 d' = bcrypt_gensalt lib rnd'" unfolding salted_def by blast+
  from assms(1) have "inj (bcrypt_gensalt lib)" by (simp add: salted_def)
  with assms(2) have "bcrypt_gensalt lib rnd \<noteq> bcrypt_gensalt lib rnd'"
    by (auto dest: injD)
  with p show ?thesis by auto
qed


lemma register_stores:
  assumes "strip u \<noteq> []" and "strip p \<noteq> []" and "length (strip u) \<le> 255"
    and "users db = Some rows" and "strip u \<notin> set (map fst rows)"
    and "hash_password up lib (strip p) rnd = Inr hashed"
    and "decode hashed = Inr h" and "length h \<le> 255"
  shows "register up lib u p rnd db =
           \<lparr>status = Returned, printed = [registration_successful],
            store = \<lparr>users = Some (rows @ [(strip u, h)]),
                     durable = Some (rows @ [(strip u, h)]),
                     sent = sent db @ [InsertUser (strip u) h, Commit]\<rparr>\<rparr>"
  using assms by (simp add: register_def execute_insert_def commit_def Let_def)

lemma register_duplicate:
  assumes "strip u \<noteq> []" and "strip p \<noteq> []" and "length (strip u) \<le> 255"
    and "users db = Some rows" and "strip u \<in> set (map fst rows)"
    and "hash_password up lib (strip p) rnd = Inr hashed"
    and "decode hashed = Inr h" and "length h \<le> 255"
  shows "register up lib u p rnd db =
           \<lparr>status = Returned, printed = [username_exists],
            store = db\<lparr>sent := sent db @ [InsertUser (strip u) h]\<rparr>\<rparr>"
  using assms
  by (simp add: register_def execute_insert_def except_IntegrityError_def Let_def)

lemma login_absent:
  assumes "strip u \<noteq> []" and "users db = Some rows" and "strip u \<notin> set (map fst rows)"
  shows "login up lib u p db =
           \<lparr>status = Returned, printed = [user_not_found],
            store = db\<lparr>sent := sent db @ [SelectHash (strip u)]\<rparr>\<rparr>"
proof -
  from assms(3) have "filter (\<lambda>r. fst r = strip u) rows = []"
    by (force simp: filter_empty_conv)
  with assms(1,2) show ?thesis
    by (simp add: login_def execute_select_def fetchone_def Let_def)
qed

lemma login_present:
  assumes "strip u \<noteq> []" and "users db = Some (rows @ [(strip u, h)])"
    and "strip u \<notin> set (map fst rows)"
    and "encode h = Inr hashed" and "verify_password up lib (strip p) hashed = Inr ok"
  shows "login up lib u p db =
           \<lparr>status = Returned,
            printed = [if ok then login_successful (strip u) else invalid_credentials],
            store = db\<lparr>sent := sent db @ [SelectHash (strip u)]\<rparr>\<rparr>"
proof -
  from assms(3) have "filter (\<lambda>r. fst r = strip u) rows = []"
    by (force simp: filter_empty_conv)
  with assms(1,2,4,5) show ?thesis
    by (simp add: login_def execute_select_def fetchone_def Let_def)
qed

section \<open>Running the program on the stand-in backend\<close>

lemma radix64_unfold:
  "radix64 k n = (if k = 0 then [] else alphabet ! (n mod 64) # radix64 (k - 1) (n div 64))"
  by (cases k) simp_all

lemmas run_defs = lit_def strip_def isspace_def utf8_char_def trail_def Let_def
  hash_password_def verify_password_def
  stand_in_def stand_in_gensalt_def stand_in_hashpw_def stand_in_checkpw_def stand_in_hash_def
  stand_in_verify_def valid_salt_def alphabet_def stir_def radix64_unfold char_of_eq_iff

lemma hash_s3cret_7:
  "hash_password False stand_in (lit ''s3cret'') 7 =
     Inr ''$2b$12$F.....................kdaQfvLreNtvJHPHVkslA5SXBJyVCHA''"
  by (simp add: run_defs)

lemma hash_s3cret_8:
  "hash_password False stand_in (lit ''s3cret'') 8 =
     Inr ''$2b$12$G.....................lJMoNV1SkbzegSdZ74Yb4oelsKVX72.''"
  by (simp add: run_defs)

lemma decode_digest_7:
  "decode ''$2b$12$F.....................kdaQfvLreNtvJHPHVkslA5SXBJyVCHA'' =
     Inr (lit ''$2b$12$F.....................kdaQfvLreNtvJHPHVkslA5SXBJyVCHA'')"
  by (simp add: run_defs)





lemma strip_examples:
  "strip (lit ''alice'') = lit ''alice''" "strip (lit '' alice '') = lit ''alice''"
  "strip (lit ''s3cret'') = lit ''s3cret''" "strip (lit ''s3cret '') = lit ''s3cret''"
  "strip (lit ''wrong'') = lit ''wrong''" "strip (lit ''  p  '') = lit ''p''"
  "strip (lit ''p'') = lit ''p''" "strip (lit '' '') = []" "strip [] = []"
  "strip (lit ''pw'') = lit ''pw''" "strip (lit ''bob'') = lit ''bob''"
  by (simp_all add: lit_def strip_def isspace_def)

lemma users_created: "users (setup_table no_table) = Some []"
  by (simp add: setup_table_def no_table_def)

lemma alice_registered:
  "register False stand_in (lit ''alice'') (lit ''s3cret'') 7 (setup_table no_table) =
     \<lparr>status = Returned, printed = [registration_successful],
      store = \<lparr>users = Some [(lit ''alice'',
                 lit ''$2b$12$F.....................kdaQfvLreNtvJHPHVkslA5SXBJyVCHA'')],
               durable = Some [(lit ''alice'',
                 lit ''$2b$12$F.....................kdaQfvLreNtvJHPHVkslA5SXBJyVCHA'')],
               sent = [CreateUsers,
                 InsertUser (lit ''alice'')
                   (lit ''$2b$12$F.....................kdaQfvLreNtvJHPHVkslA5SXBJyVCHA''),
                 Commit]\<rparr>\<rparr>"
proof -
  have "strip (lit ''alice'') \<noteq> []" "strip (lit ''s3cret'') \<noteq> []"
    "length (strip (lit ''alice'')) \<le> 255"
    "strip (lit ''alice'') \<notin> set (map fst [])"
    "hash_password False stand_in (strip (lit ''s3cret'')) 7 =
       Inr ''$2b$12$F.....................kdaQfvLreNtvJHPHVkslA5SXBJyVCHA''"
    "length (lit ''$2b$12$F.....................kdaQfvLreNtvJHPHVkslA5SXBJyVCHA'') \<le> 255"
    by (simp_all add: strip_examples hash_s3cret_7) (simp_all add: lit_def)
  from register_stores [OF this(1,2,3) users_created this(4,5) decode_digest_7 this(6)]
  show ?thesis by (simp add: strip_examples setup_table_def no_table_def)
qed

section \<open>The claims\<close>

lemma login_after_register:
  assumes "strip u \<noteq> []" and "strip p \<noteq> []" and "length (strip u) \<le> 255"
    and "users db = Some rows" and "strip u \<notin> set (map fst rows)"
    and "hash_password up lib (strip p) rnd = Inr hashed"
    and "decode hashed = Inr h" and "length h \<le> 255"
    and "verify_password up lib (strip p') hashed = Inr ok"
  shows "status (login up lib u p' (store (register up lib u p rnd db))) = Returned \<and>
         printed (login up lib u p' (store (register up lib u p rnd db))) =
           [if ok then login_successful (strip u) else invalid_credentials]"
proof -
  let ?db = "\<lparr>users = Some (rows @ [(strip u, h)]), durable = Some (rows @ [(strip u, h)]),
             sent = sent db @ [InsertUser (strip u) h, Commit]\<rparr>"
  have r: "store (register up lib u p rnd db) = ?db"
    using register_stores [OF assms(1-8)] by simp
  have "users ?db = Some (rows @ [(strip u, h)])" by simp
  from login_present [OF assms(1) this assms(5) encode_decode [OF assms(7)] assms(9)]
  show ?thesis unfolding r by simp
qed

text \<open>
  C1. Registering and then logging in with the same username and password succeeds.
  As stated, for every non-empty username and password, this fails for a password of
  blanks: register strips it and refuses it. It holds for a username and a password that
  are non-empty after stripping, the username at most 255 characters long and not yet in
  the table, when the library returns a digest for the stripped password (text of at most
  255 characters) and accepts its own digests.
\<close>

theorem register_then_login:
  assumes "strip u \<noteq> []" and "strip p \<noteq> []" and "length (strip u) \<le> 255"
    and "users db = Some rows" and "strip u \<notin> set (map fst rows)"
    and "accepts_own lib"
    and "hash_password up lib (strip p) rnd = Inr hashed"
    and "decode hashed = Inr h" and "length h \<le> 255"
  shows "status (register up lib u p rnd db) = Returned \<and>
         printed (register up lib u p rnd db) = [registration_successful] \<and>
         status (login up lib u p (store (register up lib u p rnd db))) = Returned \<and>
         printed (login up lib u p (store (register up lib u p rnd db))) =
           [login_successful (strip u)]"
proof -
  have v: "verify_password up lib (strip p) hashed = Inr True"
    using assms(6,7) by (rule verify_own)
  from register_stores [OF assms(1-5) assms(7-9)]
  have "status (register up lib u p rnd db) = Returned"
    "printed (register up lib u p rnd db) = [registration_successful]" by simp_all
  with login_after_register [OF assms(1-5) assms(7-9) v] show ?thesis by simp
qed

theorem register_then_login_witness:
  "strip (lit '' alice '') \<noteq> [] \<and> strip (lit ''s3cret'') \<noteq> [] \<and>
   length (strip (lit '' alice '')) \<le> 255 \<and>
   users (setup_table no_table) = Some [] \<and>
   strip (lit '' alice '') \<notin> set (map fst []) \<and>
   accepts_own stand_in \<and>
   hash_password False stand_in (strip (lit ''s3cret'')) 7 =
     Inr ''$2b$12$F.....................kdaQfvLreNtvJHPHVkslA5SXBJyVCHA'' \<and>
   printed (register False stand_in (lit '' alice '') (lit ''s3cret'') 7
     (setup_table no_table)) = [registration_successful] \<and>
   printed (login False stand_in (lit '' alice '') (lit ''s3cret'')
     (store (register False stand_in (lit '' alice '') (lit ''s3cret'') 7
       (setup_table no_table)))) = [login_successful (lit ''alice'')]"
proof -
  have h: "strip (lit '' alice '') \<noteq> []" "strip (lit ''s3cret'') \<noteq> []"
    "length (strip (lit '' alice '')) \<le> 255"
    "strip (lit '' alice '') \<notin> set (map fst [])"
    "hash_password False stand_in (strip (lit ''s3cret'')) 7 =
       Inr ''$2b$12$F.....................kdaQfvLreNtvJHPHVkslA5SXBJyVCHA''"
    "length (lit ''$2b$12$F.....................kdaQfvLreNtvJHPHVkslA5SXBJyVCHA'') \<le> 255"
    by (simp_all add: strip_examples hash_s3cret_7) (simp_all add: lit_def)
  from register_then_login [OF h(1,2,3) users_created h(4) stand_in_accepts_own h(5)
      decode_digest_7 h(6)] h users_created stand_in_accepts_own
  show ?thesis by (simp add: strip_examples)
qed

theorem register_login_blank_password:
  "lit ''bob'' \<noteq> [] \<and> lit '' '' \<noteq> [] \<and>
   users (setup_table no_table) = Some [] \<and>
   printed (register False stand_in (lit ''bob'') (lit '' '') 7 (setup_table no_table)) =
     [password_empty] \<and>
   printed (login False stand_in (lit ''bob'') (lit '' '')
     (store (register False stand_in (lit ''bob'') (lit '' '') 7 (setup_table no_table)))) =
     [user_not_found] \<and>
   user_not_found \<noteq> login_successful (lit ''bob'')"
proof -
  have r: "register False stand_in (lit ''bob'') (lit '' '') 7 (setup_table no_table) =
      \<lparr>status = Returned, printed = [password_empty], store = setup_table no_table\<rparr>"
    by (simp add: register_def lit_def strip_def isspace_def Let_def)
  have "strip (lit ''bob'') \<noteq> []" "strip (lit ''bob'') \<notin> set (map fst [])"
    by (simp_all add: strip_examples) (simp add: lit_def)
  from login_absent [OF this(1) users_created this(2)]
  have "printed (login False stand_in (lit ''bob'') (lit '' '') (setup_table no_table)) =
      [user_not_found]" by simp
  with r users_created show ?thesis
    by (simp add: user_not_found_def login_successful_def cross_def tick_def) (simp add: lit_def)
qed

text \<open>
  C4. Registering a username that is already in the table reports that the username is
  taken, whatever the password, and leaves the table as it was. As stated, for every
  password, this fails for the empty password: register refuses it before it reaches the
  table. It holds for a password that is non-empty after stripping and for which the
  library returns a digest (text of at most 255 characters): the call prints
  \<open>Username already exists.\<close>, and neither the table nor its committed state
  changes; the only trace is the INSERT statement that was sent, with no COMMIT.
\<close>

theorem register_taken_username:
  assumes "strip u \<noteq> []" and "strip p \<noteq> []" and "length (strip u) \<le> 255"
    and "users db = Some rows" and "strip u \<in> set (map fst rows)"
    and "hash_password up lib (strip p) rnd = Inr hashed"
    and "decode hashed = Inr h" and "length h \<le> 255"
  shows "status (register up lib u p rnd db) = Returned \<and>
         printed (register up lib u p rnd db) = [username_exists] \<and>
         users (store (register up lib u p rnd db)) = users db \<and>
         durable (store (register up lib u p rnd db)) = durable db \<and>
         sent (store (register up lib u p rnd db)) = sent db @ [InsertUser (strip u) h]"
  using assms
  by (simp add: register_def execute_insert_def except_IntegrityError_def Let_def)

theorem register_taken_username_witness:
  "strip (lit ''alice'') \<noteq> [] \<and> strip (lit ''s3cret'') \<noteq> [] \<and>
   length (strip (lit ''alice'')) \<le> 255 \<and>
   strip (lit ''alice'') \<in> set (map fst
     [(lit ''alice'', lit ''$2b$12$F.....................kdaQfvLreNtvJHPHVkslA5SXBJyVCHA'')]) \<and>
   hash_password False stand_in (strip (lit ''s3cret'')) 8 =
     Inr ''$2b$12$G.....................lJMoNV1SkbzegSdZ74Yb4oelsKVX72.'' \<and>
   printed (register False stand_in (lit ''alice'') (lit ''s3cret'') 8
     (store (register False stand_in (lit ''alice'') (lit ''s3cret'') 7
       (setup_table no_table)))) = [username_exists] \<and>
   users (store (register False stand_in (lit ''alice'') (lit ''s3cret'') 8
     (store (register False stand_in (lit ''alice'') (lit ''s3cret'') 7
       (setup_table no_table))))) =
     Some [(lit ''alice'', lit ''$2b$12$F.....................kdaQfvLreNtvJHPHVkslA5SXBJyVCHA'')]"
proof -
  let ?db = "store (register False stand_in (lit ''alice'') (lit ''s3cret'') 7
    (setup_table no_table))"
  let ?rows = "[(lit ''alice'',
    lit ''$2b$12$F.....................kdaQfvLreNtvJHPHVkslA5SXBJyVCHA'')]"
  have u: "users ?db = Some ?rows" by (simp add: alice_registered)
  have d: "decode ''$2b$12$G.....................lJMoNV1SkbzegSdZ74Yb4oelsKVX72.'' =
      Inr (lit ''$2b$12$G.....................lJMoNV1SkbzegSdZ74Yb4oelsKVX72.'')"
    by (simp add: run_defs)
  have h: "strip (lit ''alice'') \<noteq> []" "strip (lit ''s3cret'') \<noteq> []"
    "length (strip (lit ''alice'')) \<le> 255"
    "strip (lit ''alice'') \<in> set (map fst ?rows)"
    "hash_password False stand_in (strip (lit ''s3cret'')) 8 =
       Inr ''$2b$12$G.....................lJMoNV1SkbzegSdZ74Yb4oelsKVX72.''"
    "length (lit ''$2b$12$G.....................lJMoNV1SkbzegSdZ74Yb4oelsKVX72.'') \<le> 255"
    by (simp_all add: strip_examples hash_s3cret_8) (simp_all add: lit_def)
  from register_taken_username [OF h(1,2,3) u h(4,5) d h(6)] h u
  show ?thesis by simp
qed

theorem register_taken_username_empty_password:
  "users (store (register False stand_in (lit ''alice'') (lit ''s3cret'') 7
     (setup_table no_table))) =
     Some [(lit ''alice'', lit ''$2b$12$F.....................kdaQfvLreNtvJHPHVkslA5SXBJyVCHA'')] \<and>
   printed (register False stand_in (lit ''alice'') [] 8
     (store (register False stand_in (lit ''alice'') (lit ''s3cret'') 7
       (setup_table no_table)))) = [password_empty] \<and>
   password_empty \<noteq> username_exists"
proof -
  have "printed (register False stand_in (lit ''alice'') [] 8 db) = [password_empty]" for db
    by (simp add: register_def lit_def strip_def isspace_def Let_def)
  moreover have "password_empty \<noteq> username_exists"
    by (simp add: password_empty_def username_exists_def lit_def)
  ultimately show ?thesis by (simp add: alice_registered)
qed

text \<open>
  C5. Logging in with a username that is not in the table reports that the user was not
  found, and raises nothing. As stated, for every username not in the table, this fails
  for a username of blanks: login strips it and refuses it as empty. It holds for every
  username that is non-empty after stripping and whose stripped form is not in the
  table, and for every password, empty or not: login sends one SELECT, prints
  \<open>User not found.\<close> and returns.
\<close>

theorem login_unknown_username:
  assumes "strip u \<noteq> []" and "users db = Some rows" and "strip u \<notin> set (map fst rows)"
  shows "login up lib u p db =
           \<lparr>status = Returned, printed = [user_not_found],
            store = db\<lparr>sent := sent db @ [SelectHash (strip u)]\<rparr>\<rparr>"
  using assms(1,2) login_absent [OF assms] by simp

theorem login_unknown_username_witness:
  "strip (lit ''bob'') \<noteq> [] \<and> users (setup_table no_table) = Some [] \<and>
   strip (lit ''bob'') \<notin> set (map fst []) \<and>
   login False stand_in (lit ''bob'') (lit ''pw'') (setup_table no_table) =
     \<lparr>status = Returned, printed = [user_not_found],
      store = \<lparr>users = Some [], durable = Some [],
               sent = [CreateUsers, SelectHash (lit ''bob'')]\<rparr>\<rparr>"
proof -
  have h: "strip (lit ''bob'') \<noteq> []" "strip (lit ''bob'') \<notin> set (map fst [])"
    by (simp_all add: strip_examples) (simp add: lit_def)
  from login_unknown_username [OF h(1) users_created h(2)] h users_created
  show ?thesis by (simp add: strip_examples setup_table_def no_table_def)
qed

theorem login_blank_username:
  "lit '' '' \<noteq> [] \<and> users (setup_table no_table) = Some [] \<and>
   lit '' '' \<notin> set (map fst []) \<and> lit ''pw'' \<noteq> [] \<and>
   printed (login False stand_in (lit '' '') (lit ''pw'') (setup_table no_table)) =
     [username_empty] \<and>
   username_empty \<noteq> user_not_found"
  by (simp add: users_created login_def strip_examples username_empty_def user_not_found_def)
    (simp add: lit_def)




text \<open>
  C2. \<open>verify_password\<close> returns false, and never raises, on a digest that does not
  parse. The code does this in the passlib branch only, where the call sits in
  \<open>try ... except Exception: return False\<close>. In the bcrypt branch the result of
  \<open>bcrypt.checkpw\<close> is returned as it is, so an exception of the library escapes to
  the caller: \<open>bcrypt.checkpw\<close> raises \<open>ValueError\<close> (invalid salt) on such a
  digest.
\<close>

theorem verify_password_bcrypt_raises:
  assumes "encode raw = Inr pw" and "bcrypt_checkpw lib pw stored_hash = Inl e"
  shows "verify_password False lib raw stored_hash = Inl e"
  using assms by (simp add: verify_password_def)

theorem verify_password_bcrypt_raises_witness:
  "encode (lit ''s3cret'') = Inr ''s3cret'' \<and>
   bcrypt_checkpw stand_in ''s3cret'' [] = Inl ValueError \<and>
   verify_password False stand_in (lit ''s3cret'') [] = Inl ValueError \<and>
   bcrypt_checkpw stand_in ''s3cret'' ''$2b$12$F.....'' = Inl ValueError \<and>
   verify_password False stand_in (lit ''s3cret'') ''$2b$12$F.....'' = Inl ValueError"
proof -
  have e: "encode (lit ''s3cret'') = Inr ''s3cret''" by (simp add: run_defs)
  have c: "bcrypt_checkpw stand_in ''s3cret'' [] = Inl ValueError"
    "bcrypt_checkpw stand_in ''s3cret'' ''$2b$12$F.....'' = Inl ValueError"
    by (simp_all add: stand_in_def stand_in_checkpw_def stand_in_hashpw_def valid_salt_def)
  from verify_password_bcrypt_raises [OF e c(1)] verify_password_bcrypt_raises [OF e c(2)] e c
  show ?thesis by simp
qed

lemma verify_password_passlib_total:
  "verify_password True lib raw stored_hash = Inr False \<or>
   verify_password True lib raw stored_hash = Inr True"
  by (simp add: verify_password_def split: sum.splits)

text \<open>
  C3. An empty username or password is refused by register and by login before the
  database is touched. register does so for both. login checks the username only: with
  a username that is non-empty after stripping and a password that is empty after
  stripping it sends the SELECT all the same.
\<close>

theorem login_empty_password_selects:
  assumes "strip u \<noteq> []" and "strip p = []"
  shows "sent (store (login up lib u p db)) = sent db @ [SelectHash (strip u)] \<and>
         printed (login up lib u p db) \<noteq> [password_empty]"
proof -
  have "password_empty \<noteq> user_not_found" "password_empty \<noteq> invalid_credentials"
    "password_empty \<noteq> login_successful (strip u)"
    by (simp_all add: password_empty_def user_not_found_def invalid_credentials_def
        login_successful_def lit_def cross_def tick_def)
  with assms(1) show ?thesis
    by (simp add: login_def execute_select_def Let_def
        split: option.splits sum.splits bool.splits)
qed

theorem login_empty_password_selects_witness:
  "strip (lit ''alice'') \<noteq> [] \<and> strip [] = [] \<and>
   sent (store (login False stand_in (lit ''alice'') [] (setup_table no_table))) =
     [CreateUsers, SelectHash (lit ''alice'')] \<and>
   printed (login False stand_in (lit ''alice'') [] (setup_table no_table)) =
     [user_not_found]"
proof -
  have h: "strip (lit ''alice'') \<noteq> []" "strip [] = []"
    "strip (lit ''alice'') \<notin> set (map fst [])"
    by (simp_all add: strip_examples) (simp_all add: lit_def)
  have "printed (login False stand_in (lit ''alice'') [] (setup_table no_table)) =
      [user_not_found]"
    using login_absent [OF h(1) users_created h(3)] by simp
  with login_empty_password_selects [OF h(1,2), of False stand_in "setup_table no_table"] h
  show ?thesis by (simp add: strip_examples setup_table_def no_table_def)
qed

lemma register_validates_first:
  assumes "strip u = [] \<or> strip p = []"
  shows "store (register up lib u p rnd db) = db \<and>
         status (register up lib u p rnd db) = Returned \<and>
         printed (register up lib u p rnd db) =
           [if strip u = [] then username_empty else password_empty]"
  using assms by (auto simp: register_def Let_def)

lemma login_validates_username_first:
  assumes "strip u = []"
  shows "login up lib u p db = \<lparr>status = Returned, printed = [username_empty], store = db\<rparr>"
  using assms by (simp add: login_def)

text \<open>
  C7. Hashing the same password twice gives two different digests, and both verify
  against the password. As stated, for every password, this fails for a password that
  \<open>raw.encode()\<close> refuses, such as a lone surrogate: \<open>hash_password\<close> raises and
  there is no digest. It holds whenever the two calls, which differ in the randomness
  they draw, both return: for a library whose salts differ when the randomness differs
  and whose digests begin with the salt (\<open>salted\<close>), and which accepts its own digests
  (\<open>accepts_own\<close>), the two digests are different and \<open>verify_password\<close> returns
  true for each.
\<close>

theorem fresh_salt_fresh_digest:
  assumes "accepts_own lib" and "salted lib" and "rnd \<noteq> rnd'"
    and "hash_password up lib p rnd = Inr d" and "hash_password up lib p rnd' = Inr d'"
  shows "d \<noteq> d' \<and> verify_password up lib p d = Inr True \<and>
         verify_password up lib p d' = Inr True"
  using hash_password_salted [OF assms(2-5)] verify_own [OF assms(1,4)]
    verify_own [OF assms(1,5)] by simp

theorem fresh_salt_fresh_digest_witness:
  "accepts_own stand_in \<and> salted stand_in \<and> (7 :: entropy) \<noteq> 8 \<and>
   hash_password False stand_in (lit ''s3cret'') 7 =
     Inr ''$2b$12$F.....................kdaQfvLreNtvJHPHVkslA5SXBJyVCHA'' \<and>
   hash_password False stand_in (lit ''s3cret'') 8 =
     Inr ''$2b$12$G.....................lJMoNV1SkbzegSdZ74Yb4oelsKVX72.'' \<and>
   verify_password False stand_in (lit ''s3cret'')
     ''$2b$12$F.....................kdaQfvLreNtvJHPHVkslA5SXBJyVCHA'' = Inr True \<and>
   verify_password False stand_in (lit ''s3cret'')
     ''$2b$12$G.....................lJMoNV1SkbzegSdZ74Yb4oelsKVX72.'' = Inr True"
proof -
  have n: "(7 :: entropy) \<noteq> 8" by simp
  from fresh_salt_fresh_digest [OF stand_in_accepts_own stand_in_salted n
      hash_s3cret_7 hash_s3cret_8]
    stand_in_accepts_own stand_in_salted n hash_s3cret_7 hash_s3cret_8
  show ?thesis by simp
qed

theorem hash_password_lone_surrogate:
  "hash_password False stand_in [0xD800] 7 = Inl UnicodeEncodeError \<and>
   hash_password False stand_in [0xD800] 8 = Inl UnicodeEncodeError"
  by (simp add: hash_password_def utf8_char_def)

text \<open>
  C8. When the connection attempt fails with a connector error, \<open>connect\<close> prints
  the one message of the error's class, makes no further attempt and ends the process
  with status 1; the messages of different classes differ, whatever the database name
  and the error text. When the attempt succeeds it prints nothing and returns the
  connection.
\<close>

theorem connect_outcomes:
  "(net n = Failed errno err \<longrightarrow>
      connect DB_NAME net n = (Exit 1, [diagnostic DB_NAME err (classify errno)], Suc n)) \<and>
   (net n = Connected conn \<longrightarrow> connect DB_NAME net n = (Return conn, [], Suc n)) \<and>
   (diagnostic DB_NAME err c = diagnostic DB_NAME' err' c' \<longrightarrow> c = c')"
proof -
  have "diagnostic DB_NAME err c = diagnostic DB_NAME' err' c' \<longrightarrow> c = c'"
    by (cases c; cases c')
      (simp_all add: database_missing_def access_denied_def connection_error_def lit_def)
  then show ?thesis by (simp add: connect_def classify_def)
qed

theorem connect_outcomes_witness:
  "connect (lit ''login_db'') (\<lambda>_. Failed 1049 (lit ''Unknown database'')) 0 =
     (Exit 1, [database_missing (lit ''login_db'')], 1) \<and>
   connect (lit ''login_db'') (\<lambda>_. Failed 1045 (lit ''Access denied'')) 0 =
     (Exit 1, [access_denied], 1) \<and>
   connect (lit ''login_db'') (\<lambda>_. Failed 2003 (lit ''Cannot connect'')) 0 =
     (Exit 1, [connection_error (lit ''Cannot connect'')], 1) \<and>
   connect (lit ''login_db'') (\<lambda>_. Connected no_table) 0 = (Return no_table, [], 1) \<and>
   database_missing (lit ''login_db'') \<noteq> connection_error (lit ''Cannot connect'')"
proof -
  have c: "classify 1049 = DatabaseMissing" "classify 1045 = AccessDenied"
    "classify 2003 = OtherConnectionError"
    by (simp_all add: classify_def ER_BAD_DB_ERROR_def ER_ACCESS_DENIED_ERROR_def)
  note t = connect_outcomes [where DB_NAME = "lit ''login_db''" and n = 0]
  from t [where net = "\<lambda>_. Failed 1049 (lit ''Unknown database'')" and errno = 1049
        and err = "lit ''Unknown database''"]
    t [where net = "\<lambda>_. Failed 1045 (lit ''Access denied'')" and errno = 1045
        and err = "lit ''Access denied''"]
    t [where net = "\<lambda>_. Failed 2003 (lit ''Cannot connect'')" and errno = 2003
        and err = "lit ''Cannot connect''"]
    t [where net = "\<lambda>_. Connected no_table" and conn = no_table]
    t [where err = "lit ''Cannot connect''" and c = DatabaseMissing
        and DB_NAME' = "lit ''login_db''" and err' = "lit ''Cannot connect''"
        and c' = OtherConnectionError]
  show ?thesis by (simp add: c)
qed

lemma hash_password_nonempty:
  assumes "digests_nonempty lib" and "hash_password up lib raw rnd = Inr hashed"
  shows "hashed \<noteq> []"
proof (cases up)
  case True
  with assms(2) obtain s where s: "passlib_bcrypt_hash lib raw rnd = Inr s"
    and e: "encode s = Inr hashed"
    by (auto simp: hash_password_def split: sum.splits)
  from assms(1) s have "s \<noteq> []" unfolding digests_nonempty_def by blast
  with e show ?thesis by (rule encode_nonempty)
next
  case False
  with assms(2) obtain pw where "bcrypt_hashpw lib pw (bcrypt_gensalt lib rnd) = Inr hashed"
    by (auto simp: hash_password_def split: sum.splits)
  with assms(1) show ?thesis unfolding digests_nonempty_def by blast
qed

lemma login_keeps_table:
  "users (store (login up lib u p db)) = users db \<and>
   durable (store (login up lib u p db)) = durable db"
  by (simp add: login_def execute_select_def Let_def
      split: option.splits sum.splits bool.splits)

lemma register_table:
  "(users (store (register up lib u p rnd db)) = users db \<and>
    durable (store (register up lib u p rnd db)) = durable db) \<or>
   (\<exists>rows hashed h. users db = Some rows \<and> strip u \<notin> set (map fst rows) \<and>
      hash_password up lib (strip p) rnd = Inr hashed \<and> decode hashed = Inr h \<and>
      users (store (register up lib u p rnd db)) = Some (rows @ [(strip u, h)]) \<and>
      durable (store (register up lib u p rnd db)) = Some (rows @ [(strip u, h)]))"
  by (simp add: register_def execute_insert_def commit_def except_IntegrityError_def Let_def
      split: option.splits sum.splits)

lemma table_ok_snoc:
  assumes "table_ok up lib (Some rows)" and "k \<notin> set (map fst rows)"
    and "h \<noteq> []" and "hashed_by up lib h"
  shows "table_ok up lib (Some (rows @ [(k, h)]))"
  using assms by (auto simp: table_ok_def)

lemma setup_table_invariant:
  assumes "invariant up lib db"
  shows "invariant up lib (setup_table db)"
  using assms
  by (cases "users db") (simp_all add: invariant_def setup_table_def table_ok_def)

text \<open>
  C9. register, login and setup_table keep the invariant of the table: no username
  occurs in two rows, and every stored password hash is non-empty text that
  \<open>hash_password\<close> returned for some plaintext. That the text is non-empty rests on
  the library, which never returns an empty digest (\<open>digests_nonempty\<close>).
\<close>

theorem operations_keep_invariant:
  assumes "digests_nonempty lib" and "invariant up lib db"
  shows "invariant up lib (store (register up lib u p rnd db)) \<and>
         invariant up lib (store (login up lib u p db)) \<and>
         invariant up lib (setup_table db)"
proof -
  have l: "invariant up lib (store (login up lib u p db))"
    using assms(2) login_keeps_table [of up lib u p db] by (simp add: invariant_def)
  have r: "invariant up lib (store (register up lib u p rnd db))"
    using register_table [of up lib u p rnd db]
  proof
    assume "users (store (register up lib u p rnd db)) = users db \<and>
      durable (store (register up lib u p rnd db)) = durable db"
    with assms(2) show ?thesis by (simp add: invariant_def)
  next
    assume "\<exists>rows hashed h. users db = Some rows \<and> strip u \<notin> set (map fst rows) \<and>
      hash_password up lib (strip p) rnd = Inr hashed \<and> decode hashed = Inr h \<and>
      users (store (register up lib u p rnd db)) = Some (rows @ [(strip u, h)]) \<and>
      durable (store (register up lib u p rnd db)) = Some (rows @ [(strip u, h)])"
    then obtain rows hashed h where rows: "users db = Some rows"
      and new: "strip u \<notin> set (map fst rows)"
      and hp: "hash_password up lib (strip p) rnd = Inr hashed" and d: "decode hashed = Inr h"
      and u: "users (store (register up lib u p rnd db)) = Some (rows @ [(strip u, h)])"
      and c: "durable (store (register up lib u p rnd db)) = Some (rows @ [(strip u, h)])"
      by blast
    from hash_password_nonempty [OF assms(1) hp] d have "h \<noteq> []" by (rule decode_nonempty [rotated])
    moreover from hp d have "hashed_by up lib h" unfolding hashed_by_def by blast
    moreover from assms(2) rows have "table_ok up lib (Some rows)" by (simp add: invariant_def)
    ultimately have "table_ok up lib (Some (rows @ [(strip u, h)]))"
      using new by (simp add: table_ok_snoc)
    with u c show ?thesis by (simp add: invariant_def)
  qed
  from r l setup_table_invariant [OF assms(2)] show ?thesis by simp
qed

theorem operations_keep_invariant_witness:
  "digests_nonempty stand_in \<and> invariant False stand_in (setup_table no_table) \<and>
   invariant False stand_in
     (store (register False stand_in (lit ''alice'') (lit ''s3cret'') 7
       (setup_table no_table))) \<and>
   users (store (register False stand_in (lit ''alice'') (lit ''s3cret'') 7
     (setup_table no_table))) =
     Some [(lit ''alice'', lit ''$2b$12$F.....................kdaQfvLreNtvJHPHVkslA5SXBJyVCHA'')] \<and>
   invariant False stand_in
     (store (login False stand_in (lit ''alice'') (lit ''s3cret'') (setup_table no_table))) \<and>
   invariant False stand_in (setup_table (setup_table no_table))"
proof -
  have i: "invariant False stand_in (setup_table no_table)"
    by (simp add: invariant_def table_ok_def setup_table_def no_table_def)
  from operations_keep_invariant [OF stand_in_digests_nonempty i,
      of "lit ''alice''" "lit ''s3cret''" 7] stand_in_digests_nonempty i
  show ?thesis by (simp add: alice_registered)
qed

text \<open>
  C10. register and login strip the username and the password before they look at
  them: two inputs with the same stripped username and the same stripped password give
  the same result, the same output and the same statements sent to the database. In
  particular a username of blanks is treated as the empty one.
\<close>

theorem surrounding_whitespace_ignored:
  assumes "strip u = strip u'" and "strip p = strip p'"
  shows "register up lib u p rnd db = register up lib u' p' rnd db \<and>
         login up lib u p db = login up lib u' p' db"
  using assms by (simp add: register_def login_def Let_def)

theorem surrounding_whitespace_ignored_witness:
  "strip (lit '' alice '') = strip (lit ''alice'') \<and> strip (lit ''  p  '') = strip (lit ''p'') \<and>
   strip (lit '' '') = strip [] \<and>
   register False stand_in (lit '' alice '') (lit ''  p  '') 7 (setup_table no_table) =
     register False stand_in (lit ''alice'') (lit ''p'') 7 (setup_table no_table) \<and>
   login False stand_in (lit '' alice '') (lit ''  p  '') (setup_table no_table) =
     login False stand_in (lit ''alice'') (lit ''p'') (setup_table no_table) \<and>
   register False stand_in (lit '' '') (lit ''p'') 7 (setup_table no_table) =
     \<lparr>status = Returned, printed = [username_empty], store = setup_table no_table\<rparr> \<and>
   login False stand_in (lit '' '') (lit ''p'') (setup_table no_table) =
     \<lparr>status = Returned, printed = [username_empty], store = setup_table no_table\<rparr> \<and>
   printed (login False stand_in (lit ''alice'') (lit ''p'')
     (store (register False stand_in (lit ''alice'') (lit ''  p  '') 7
       (setup_table no_table)))) = [login_successful (lit ''alice'')]"
proof -
  have s: "strip (lit '' alice '') = strip (lit ''alice'')"
    "strip (lit ''  p  '') = strip (lit ''p'')" "strip (lit '' '') = strip []"
    "strip (lit ''p'') = strip (lit ''p'')"
    by (simp_all add: strip_examples)
  have e: "register False stand_in [] (lit ''p'') 7 (setup_table no_table) =
      \<lparr>status = Returned, printed = [username_empty], store = setup_table no_table\<rparr>"
    "login False stand_in [] (lit ''p'') (setup_table no_table) =
      \<lparr>status = Returned, printed = [username_empty], store = setup_table no_table\<rparr>"
    by (simp_all add: register_def login_def strip_examples)
  have hp: "hash_password False stand_in (strip (lit ''  p  '')) 7 =
      Inr ''$2b$12$F.....................71V8cDwGOF0TQZGI4mF5E1PKE910pWI''"
    unfolding strip_examples by (simp add: run_defs)
  have dp: "decode ''$2b$12$F.....................71V8cDwGOF0TQZGI4mF5E1PKE910pWI'' =
      Inr (lit ''$2b$12$F.....................71V8cDwGOF0TQZGI4mF5E1PKE910pWI'')"
    by (simp add: run_defs)
  have h: "strip (lit ''alice'') \<noteq> []" "strip (lit ''  p  '') \<noteq> []"
    "length (strip (lit ''alice'')) \<le> 255" "strip (lit ''alice'') \<notin> set (map fst [])"
    "length (lit ''$2b$12$F.....................71V8cDwGOF0TQZGI4mF5E1PKE910pWI'') \<le> 255"
    by (simp_all add: strip_examples) (simp_all add: lit_def)
  have v: "verify_password False stand_in (strip (lit ''p''))
      ''$2b$12$F.....................71V8cDwGOF0TQZGI4mF5E1PKE910pWI'' = Inr True"
    using verify_own [OF stand_in_accepts_own hp] by (simp add: strip_examples)
  have w: "printed (login False stand_in (lit ''alice'') (lit ''p'')
      (store (register False stand_in (lit ''alice'') (lit ''  p  '') 7
        (setup_table no_table)))) = [login_successful (lit ''alice'')]"
    using login_after_register [OF h(1,2,3) users_created h(4) hp dp h(5) v]
    by (simp add: strip_examples)
  from surrounding_whitespace_ignored [OF s(1,2), of False stand_in 7 "setup_table no_table"]
    surrounding_whitespace_ignored [OF s(3,4), of False stand_in 7 "setup_table no_table"]
    s e w
  show ?thesis by simp
qed

end
